theory Spec2Isabelle
  imports Main
begin

section \<open>Strings as the server uses them\<close>

text \<open>
  The server works on JavaScript strings. They are modelled as \<^typ>\<open>string\<close>, a list of
  8-bit characters read as the code units \<open>U+0000\<close> .. \<open>U+00FF\<close>. On these, \<open>toLowerCase\<close>
  maps \<open>A\<close> .. \<open>Z\<close> and the accented capitals \<open>U+00C0\<close> .. \<open>U+00DE\<close> (but not the
  multiplication sign \<open>U+00D7\<close>) to the letter 32 places further, and leaves every other
  character alone.
\<close>

definition lowerChar :: "char \<Rightarrow> char" where
  "lowerChar c =
     (let n = (of_char c :: nat)
      in if (65 \<le> n \<and> n \<le> 90) \<or> (192 \<le> n \<and> n \<le> 222 \<and> n \<noteq> 215)
         then char_of (n + 32) else c)"

definition toLowerCase :: "string \<Rightarrow> string" where
  "toLowerCase s = map lowerChar s"

text \<open>\<open>s.startsWith(k)\<close> and \<open>s.includes(k)\<close>: \<open>k\<close> occurs in \<open>s\<close> as a substring.\<close>

fun startsWith :: "string \<Rightarrow> string \<Rightarrow> bool" where
  "startsWith s [] = True"
| "startsWith [] (k # ks) = False"
| "startsWith (c # s) (k # ks) = (c = k \<and> startsWith s ks)"

fun includesStr :: "string \<Rightarrow> string \<Rightarrow> bool" where
  "includesStr [] k = startsWith [] k"
| "includesStr (c # s) k = (startsWith (c # s) k \<or> includesStr s k)"

text \<open>
  \<open>s.split(" ")\<close>: the pieces of \<open>s\<close> between occurrences of the single space character.
  Two spaces in a row give an empty piece, the empty string gives one empty piece, and no
  other character separates.
\<close>

fun splitSpace :: "string \<Rightarrow> string list" where
  "splitSpace [] = [[]]"
| "splitSpace (c # s) =
     (if c = CHR '' '' then [] # splitSpace s
      else (case splitSpace s of
              [] \<Rightarrow> [[c]]
            | w # ws \<Rightarrow> (c # w) # ws))"

text \<open>A template literal prints a missing property (\<open>undefined\<close>) as the word itself.\<close>

definition templateText :: "string option \<Rightarrow> string" where
  "templateText v = (case v of None \<Rightarrow> ''undefined'' | Some s \<Rightarrow> s)"

text \<open>A string is truthy when it is there and not empty.\<close>

definition truthy :: "string option \<Rightarrow> bool" where
  "truthy v = (case v of None \<Rightarrow> False | Some s \<Rightarrow> s \<noteq> [])"

section \<open>Data\<close>

text \<open>
  A catalog row as the CSV reader delivers it: an object whose properties are strings, any of
  which may be missing (\<open>None\<close> is JavaScript's \<open>undefined\<close>).
\<close>

record product =
  Handle :: "string option"
  Title :: "string option"
  Body_HTML :: "string option"
  Tags :: "string option"
  Vendor :: "string option"
  Variant_Price :: "string option"
  Image_Src :: "string option"

text \<open>
  The parsed analysis of a shoe. Every property may be missing or \<open>null\<close> (\<open>None\<close>).
  \<open>materials\<close> is an object; its properties are kept in their order, as \<open>Object.values\<close>
  lists them.
\<close>

record cleaningRecommendation =
  affectedPart :: "string option"
  recommendations :: "string list option"

record shoeDetails =
  brandAndModel :: "string option"
  materials :: "(string \<times> string option) list option"
  cleaningRecommendations :: "cleaningRecommendation list option"
  recommendedTags :: "string list option"

text \<open>Reading a property of \<open>undefined\<close>, or calling a method on it, throws.\<close>

datatype error = TypeError

record scoredProduct =
  product :: product
  score :: int

record productSummary =
  summary_id :: "string option"
  summary_title :: "string option"
  summary_price :: string
  summary_image :: string
  summary_vendor :: "string option"
  summary_url :: string

section \<open>Keyword extraction (the first half of \<open>findRelevantProducts\<close>)\<close>

text \<open>Each block pushes onto the array \<open>keywords\<close>, which is passed along.\<close>

definition pushBrandAndModel :: "shoeDetails \<Rightarrow> string list \<Rightarrow> string list" where
  "pushBrandAndModel d keywords =
     (case brandAndModel d of
        None \<Rightarrow> keywords
      | Some s \<Rightarrow>
          if s = [] then keywords
          else keywords @ splitSpace (toLowerCase s))"

fun materialsLoop :: "string option list \<Rightarrow> string list \<Rightarrow> string list" where
  "materialsLoop [] keywords = keywords"
| "materialsLoop (material # rest) keywords =
     (case material of
        None \<Rightarrow> materialsLoop rest keywords
      | Some m \<Rightarrow>
          if m \<noteq> [] \<and> toLowerCase m \<noteq> ''unknown'' \<and> toLowerCase m \<noteq> ''unspecified''
          then materialsLoop rest (keywords @ [toLowerCase m])
          else materialsLoop rest keywords)"

definition pushMaterials :: "shoeDetails \<Rightarrow> string list \<Rightarrow> string list" where
  "pushMaterials d keywords =
     (case materials d of
        None \<Rightarrow> keywords
      | Some obj \<Rightarrow> materialsLoop (map snd obj) keywords)"

definition commonWords :: "string list" where
  "commonWords =
     [''with'', ''and'', ''the'', ''for'', ''your'', ''that'', ''this'', ''then'', ''use'']"

definition filteredWords :: "string \<Rightarrow> string list" where
  "filteredWords recommendation =
     filter (\<lambda>word. length word > 3 \<and> word \<notin> set commonWords)
       (splitSpace (toLowerCase recommendation))"

fun recommendationsLoop :: "string list \<Rightarrow> string list \<Rightarrow> string list" where
  "recommendationsLoop [] keywords = keywords"
| "recommendationsLoop (recommendation # rest) keywords =
     recommendationsLoop rest (keywords @ filteredWords recommendation)"

text \<open>
  One entry of \<open>cleaningRecommendations\<close>. \<open>rec.recommendations.forEach\<close> is called without
  a check, so an entry with no \<open>recommendations\<close> throws.
\<close>

definition pushRecommendation ::
    "cleaningRecommendation \<Rightarrow> string list \<Rightarrow> error + string list" where
  "pushRecommendation rec keywords =
     (let keywords1 =
            (if truthy (affectedPart rec)
             then keywords @ [toLowerCase (the (affectedPart rec))]
             else keywords)
      in case recommendations rec of
           None \<Rightarrow> Inl TypeError
         | Some rs \<Rightarrow> Inr (recommendationsLoop rs keywords1))"

fun cleaningLoop :: "cleaningRecommendation list \<Rightarrow> string list \<Rightarrow> error + string list" where
  "cleaningLoop [] keywords = Inr keywords"
| "cleaningLoop (rec # rest) keywords =
     (case pushRecommendation rec keywords of
        Inl e \<Rightarrow> Inl e
      | Inr keywords' \<Rightarrow> cleaningLoop rest keywords')"

definition pushCleaning :: "shoeDetails \<Rightarrow> string list \<Rightarrow> error + string list" where
  "pushCleaning d keywords =
     (case cleaningRecommendations d of
        None \<Rightarrow> Inr keywords
      | Some recs \<Rightarrow> cleaningLoop recs keywords)"

definition pushRecommendedTags :: "shoeDetails \<Rightarrow> string list \<Rightarrow> string list" where
  "pushRecommendedTags d keywords =
     (case recommendedTags d of
        None \<Rightarrow> keywords
      | Some tags \<Rightarrow> keywords @ map toLowerCase tags)"

definition extractKeywords :: "shoeDetails \<Rightarrow> error + string list" where
  "extractKeywords d =
     (case pushCleaning d (pushMaterials d (pushBrandAndModel d [])) of
        Inl e \<Rightarrow> Inl e
      | Inr keywords \<Rightarrow> Inr (pushRecommendedTags d keywords))"

section \<open>Scoring, ranking and the summaries (the second half)\<close>

definition productText :: "product \<Rightarrow> string" where
  "productText p =
     toLowerCase (templateText (Title p) @ '' '' @ templateText (Body_HTML p) @ '' '' @
                  templateText (Tags p) @ '' '' @ templateText (Vendor p))"

text \<open>
  One round of \<open>keywords.forEach\<close>. \<open>product.Title.toLowerCase()\<close> is reached only when the
  combined text contains the keyword, and throws when the row has no \<open>Title\<close>; \<open>Tags\<close> is
  checked before it is used.
\<close>

definition scoreKeyword :: "product \<Rightarrow> string \<Rightarrow> int \<Rightarrow> error + int" where
  "scoreKeyword p keyword score0 =
     (if includesStr (productText p) keyword then
        (case Title p of
           None \<Rightarrow> Inl TypeError
         | Some title \<Rightarrow>
             if includesStr (toLowerCase title) keyword then Inr (score0 + 3)
             else if truthy (Tags p) \<and> includesStr (toLowerCase (the (Tags p))) keyword
             then Inr (score0 + 2)
             else Inr (score0 + 1))
      else Inr score0)"

fun scoreLoop :: "product \<Rightarrow> string list \<Rightarrow> int \<Rightarrow> error + int" where
  "scoreLoop p [] score0 = Inr score0"
| "scoreLoop p (keyword # rest) score0 =
     (case scoreKeyword p keyword score0 of
        Inl e \<Rightarrow> Inl e
      | Inr score1 \<Rightarrow> scoreLoop p rest score1)"

definition scoreProduct :: "string list \<Rightarrow> product \<Rightarrow> error + int" where
  "scoreProduct keywords p = scoreLoop p keywords 0"

fun scoreAll :: "string list \<Rightarrow> product list \<Rightarrow> error + scoredProduct list" where
  "scoreAll keywords [] = Inr []"
| "scoreAll keywords (p # ps) =
     (case scoreProduct keywords p of
        Inl e \<Rightarrow> Inl e
      | Inr s \<Rightarrow>
          (case scoreAll keywords ps of
             Inl e \<Rightarrow> Inl e
           | Inr rest \<Rightarrow> Inr (\<lparr>product = p, score = s\<rparr> # rest)))"

text \<open>
  \<open>Array.prototype.sort\<close> with a comparison function: the language requires the sort to be
  stable, so for a consistent comparison its result is the one of insertion sort, where an
  element goes in front of the first element it does not compare greater than.
\<close>

fun insertBy :: "('a \<Rightarrow> 'a \<Rightarrow> int) \<Rightarrow> 'a \<Rightarrow> 'a list \<Rightarrow> 'a list" where
  "insertBy cmp x [] = [x]"
| "insertBy cmp x (y # ys) =
     (if cmp x y \<le> 0 then x # y # ys else y # insertBy cmp x ys)"

fun sortBy :: "('a \<Rightarrow> 'a \<Rightarrow> int) \<Rightarrow> 'a list \<Rightarrow> 'a list" where
  "sortBy cmp [] = []"
| "sortBy cmp (x # xs) = insertBy cmp x (sortBy cmp xs)"

definition byScoreDesc :: "scoredProduct \<Rightarrow> scoredProduct \<Rightarrow> int" where
  "byScoreDesc a b = score b - score a"

definition toSummary :: "product \<Rightarrow> productSummary" where
  "toSummary p =
     \<lparr> summary_id = Handle p,
       summary_title = Title p,
       summary_price =
         (if truthy (Variant_Price p) then ''$'' @ the (Variant_Price p)
          else ''Price not available''),
       summary_image =
         (if truthy (Image_Src p) then the (Image_Src p)
          else ''https://via.placeholder.com/200x150?text=No+Image''),
       summary_vendor = Vendor p,
       summary_url = ''https://example.com/products/'' @ templateText (Handle p) \<rparr>"

definition topProducts :: "scoredProduct list \<Rightarrow> scoredProduct list" where
  "topProducts scoredProducts =
     take 6 (sortBy byScoreDesc (filter (\<lambda>item. score item > 0) scoredProducts))"

definition rankProducts :: "string list \<Rightarrow> product list \<Rightarrow> error + productSummary list" where
  "rankProducts keywords productsDatabase =
     (case scoreAll keywords productsDatabase of
        Inl e \<Rightarrow> Inl e
      | Inr scoredProducts \<Rightarrow>
          Inr (map (\<lambda>item. toSummary (product item)) (topProducts scoredProducts)))"

definition findRelevantProducts ::
    "product list \<Rightarrow> shoeDetails \<Rightarrow> error + productSummary list" where
  "findRelevantProducts productsDatabase d =
     (if length productsDatabase = 0 then Inr []
      else (case extractKeywords d of
              Inl e \<Rightarrow> Inl e
            | Inr keywords \<Rightarrow> rankProducts keywords productsDatabase))"

section \<open>The earlier revision of \<open>findRelevantProducts\<close> (\<open>server.js\<close>)\<close>

text \<open>
  The revision in \<open>server.js\<close> has no scores: it keeps the rows whose text (without the
  vendor) contains some keyword, in catalog order, and returns the first 5. Its keywords are
  the brand words, every non-empty material and the affected parts. Nothing in it throws on
  a row or a description of these types. Its summaries carry no vendor.
\<close>

fun earlierMaterialsLoop :: "string option list \<Rightarrow> string list \<Rightarrow> string list" where
  "earlierMaterialsLoop [] keywords = keywords"
| "earlierMaterialsLoop (material # rest) keywords =
     (if truthy material
      then earlierMaterialsLoop rest (keywords @ [toLowerCase (the material)])
      else earlierMaterialsLoop rest keywords)"

fun earlierCleaningLoop :: "cleaningRecommendation list \<Rightarrow> string list \<Rightarrow> string list" where
  "earlierCleaningLoop [] keywords = keywords"
| "earlierCleaningLoop (rec # rest) keywords =
     (if truthy (affectedPart rec)
      then earlierCleaningLoop rest (keywords @ [toLowerCase (the (affectedPart rec))])
      else earlierCleaningLoop rest keywords)"

definition earlierKeywords :: "shoeDetails \<Rightarrow> string list" where
  "earlierKeywords d =
     (let keywords1 = pushBrandAndModel d [];
          keywords2 = (case materials d of
                         None \<Rightarrow> keywords1
                       | Some obj \<Rightarrow> earlierMaterialsLoop (map snd obj) keywords1)
      in case cleaningRecommendations d of
           None \<Rightarrow> keywords2
         | Some recs \<Rightarrow> earlierCleaningLoop recs keywords2)"

definition earlierProductText :: "product \<Rightarrow> string" where
  "earlierProductText p =
     toLowerCase (templateText (Title p) @ '' '' @ templateText (Body_HTML p) @ '' '' @
                  templateText (Tags p))"

definition earlierSummary :: "product \<Rightarrow> productSummary" where
  "earlierSummary p = (toSummary p)\<lparr>summary_vendor := None\<rparr>"

definition earlierFindRelevantProducts :: "product list \<Rightarrow> shoeDetails \<Rightarrow> productSummary list" where
  "earlierFindRelevantProducts productsDatabase d =
     (if length productsDatabase = 0 then []
      else map earlierSummary
             (take 5 (filter (\<lambda>p. list_ex (includesStr (earlierProductText p)) (earlierKeywords d))
                        productsDatabase)))"

section \<open>What the description of the ranking engine says\<close>

text \<open>
  The contribution of one keyword to the score of a product whose four text fields are
  \<open>title\<close>, \<open>body\<close>, \<open>tags\<close> and \<open>vendor\<close>, in the words of the description: nothing when
  the lower-cased, space-joined text does not contain the keyword; otherwise 3 for the title,
  else 2 for the tags, else 1.
\<close>

definition keywordContribution ::
    "string \<Rightarrow> string \<Rightarrow> string \<Rightarrow> string \<Rightarrow> string \<Rightarrow> int" where
  "keywordContribution title body tags vendor keyword =
     (if \<not> includesStr (toLowerCase (title @ '' '' @ body @ '' '' @ tags @ '' '' @ vendor)) keyword
      then 0
      else if includesStr (toLowerCase title) keyword then 3
      else if includesStr (toLowerCase tags) keyword then 2
      else 1)"

text \<open>
  Splitting on whitespace, as the description has it: the maximal runs of characters that
  are not whitespace (space, tab, line feed, vertical tab, form feed, carriage return).
\<close>

fun splitWhen :: "(char \<Rightarrow> bool) \<Rightarrow> string \<Rightarrow> string list" where
  "splitWhen sep [] = [[]]"
| "splitWhen sep (c # s) =
     (if sep c then [] # splitWhen sep s
      else (case splitWhen sep s of
              [] \<Rightarrow> [[c]]
            | w # ws \<Rightarrow> (c # w) # ws))"

definition isWhitespace :: "char \<Rightarrow> bool" where
  "isWhitespace c = (c \<in> {CHR '' '', CHR 0x09, CHR 0x0A, CHR 0x0B, CHR 0x0C, CHR 0x0D})"

definition whitespaceSplit :: "string \<Rightarrow> string list" where
  "whitespaceSplit s = filter (\<lambda>w. w \<noteq> []) (splitWhen isWhitespace s)"

definition isPresent :: "string option \<Rightarrow> bool" where
  "isPresent v = (v \<noteq> None)"

definition stopwords :: "string set" where
  "stopwords =
     {''with'', ''and'', ''the'', ''for'', ''your'', ''that'', ''this'', ''then'', ''use''}"

definition materialValues :: "(string \<times> string option) list \<Rightarrow> string list" where
  "materialValues obj =
     concat (map (\<lambda>(slot, v). case v of None \<Rightarrow> [] | Some s \<Rightarrow> [s]) obj)"

text \<open>
  The keyword sequence as the description composes it, in its four parts. What counts as a
  field being present, and how a string is cut into tokens, are left open here: the description
  reads them as \<^const>\<open>isPresent\<close> and \<^const>\<open>whitespaceSplit\<close>.
\<close>

definition describedKeywords ::
    "(string option \<Rightarrow> bool) \<Rightarrow> (string \<Rightarrow> string list) \<Rightarrow> shoeDetails \<Rightarrow> string list" where
  "describedKeywords present tokens d =
     (if present (brandAndModel d) then tokens (toLowerCase (the (brandAndModel d))) else []) @
     (case materials d of
        None \<Rightarrow> []
      | Some obj \<Rightarrow>
          map toLowerCase
            (filter (\<lambda>v. v \<noteq> [] \<and> toLowerCase v \<notin> {''unknown'', ''unspecified''})
               (materialValues obj))) @
     (case cleaningRecommendations d of
        None \<Rightarrow> []
      | Some recs \<Rightarrow>
          concat (map (\<lambda>rec.
              (if present (affectedPart rec) then [toLowerCase (the (affectedPart rec))] else []) @
              concat (map (\<lambda>recommendation.
                  filter (\<lambda>word. length word > 3 \<and> word \<notin> stopwords)
                    (tokens (toLowerCase recommendation)))
                (case recommendations rec of None \<Rightarrow> [] | Some rs \<Rightarrow> rs)))
            recs)) @
     (case recommendedTags d of
        None \<Rightarrow> []
      | Some tags \<Rightarrow> map toLowerCase tags)"

text \<open>Ranking order on catalog positions: the higher score first, then the earlier position.\<close>

definition rankedBefore :: "(nat \<Rightarrow> int) \<Rightarrow> nat \<Rightarrow> nat \<Rightarrow> bool" where
  "rankedBefore key i j = (key j < key i \<or> (key j = key i \<and> i < j))"

text \<open>The catalog positions of the entries that \<^const>\<open>topProducts\<close> keeps, in its order.\<close>

definition rankedPositions :: "scoredProduct list \<Rightarrow> nat list" where
  "rankedPositions scored =
     take 6 (sortBy (\<lambda>i j. score (scored ! j) - score (scored ! i))
               (filter (\<lambda>i. 0 < score (scored ! i)) [0..<length scored]))"

section \<open>Sample rows and descriptions\<close>

definition rowOil :: product where
  "rowOil = \<lparr>Handle = Some ''a'', Title = Some ''Oil'', Body_HTML = Some [],
     Tags = Some [], Vendor = Some ''V'', Variant_Price = Some ''5'', Image_Src = None\<rparr>"

definition rowWax :: product where
  "rowWax = \<lparr>Handle = Some ''b'', Title = Some ''Wax'', Body_HTML = Some [],
     Tags = Some ''oil'', Vendor = Some ''V'', Variant_Price = Some [],
     Image_Src = Some ''i''\<rparr>"

definition rowOilWax :: product where
  "rowOilWax = \<lparr>Handle = Some ''c'', Title = Some ''Oil Wax'', Body_HTML = Some [],
     Tags = Some [], Vendor = Some ''V'', Variant_Price = None, Image_Src = None\<rparr>"

definition rowRag :: product where
  "rowRag = \<lparr>Handle = Some ''d'', Title = Some ''Rag'', Body_HTML = None,
     Tags = Some [], Vendor = Some ''V'', Variant_Price = None, Image_Src = None\<rparr>"

definition rowUntitled :: product where
  "rowUntitled = \<lparr>Handle = Some ''e'', Title = None, Body_HTML = Some [],
     Tags = Some ''oil'', Vendor = Some ''V'', Variant_Price = None, Image_Src = None\<rparr>"

definition oilDetails :: shoeDetails where
  "oilDetails = \<lparr>brandAndModel = Some ''Oil'', materials = None,
     cleaningRecommendations = None, recommendedTags = None\<rparr>"

definition emptyDetails :: shoeDetails where
  "emptyDetails = \<lparr>brandAndModel = None, materials = None,
     cleaningRecommendations = None, recommendedTags = None\<rparr>"

definition partDetails :: shoeDetails where
  "partDetails = \<lparr>brandAndModel = None, materials = None,
     cleaningRecommendations = Some [\<lparr>affectedPart = Some ''Sole'', recommendations = None\<rparr>],
     recommendedTags = None\<rparr>"

definition tabbedDetails :: shoeDetails where
  "tabbedDetails = \<lparr>brandAndModel = Some (''Air'' @ [CHR 0x09] @ ''Max''), materials = None,
     cleaningRecommendations = None, recommendedTags = None\<rparr>"

definition spacedDetails :: shoeDetails where
  "spacedDetails = \<lparr>brandAndModel = Some ''Air  Max'', materials = None,
     cleaningRecommendations = None, recommendedTags = None\<rparr>"

definition leatherDetails :: shoeDetails where
  "leatherDetails = \<lparr>brandAndModel = None,
     materials = Some [(''upper'', Some ''Oil''), (''lining'', Some ''Unknown''),
                       (''insole'', None)],
     cleaningRecommendations =
       Some [\<lparr>affectedPart = Some ''Sole'', recommendations = Some [''Use a soft brush'']\<rparr>],
     recommendedTags = Some [''Care'']\<rparr>"

section \<open>Strings\<close>

lemma startsWith_iff: "startsWith s k \<longleftrightarrow> (\<exists>post. s = k @ post)"
  by (induction s k rule: startsWith.induct) auto

text \<open>\<^const>\<open>includesStr\<close> is substring containment.\<close>

lemma includesStr_iff: "includesStr s k \<longleftrightarrow> (\<exists>pre post. s = pre @ k @ post)"
proof (induction s)
  case Nil
  show ?case by (cases k) auto
next
  case (Cons c s)
  show ?case
  proof
    assume "includesStr (c # s) k"
    then consider "startsWith (c # s) k" | "includesStr s k" by auto
    then show "\<exists>pre post. c # s = pre @ k @ post"
    proof cases
      case 1
      then obtain post where "c # s = k @ post" using startsWith_iff by blast
      then have "c # s = [] @ k @ post" by simp
      then show ?thesis by blast
    next
      case 2
      then obtain pre post where "s = pre @ k @ post" using Cons.IH by blast
      then have "c # s = (c # pre) @ k @ post" by simp
      then show ?thesis by blast
    qed
  next
    assume "\<exists>pre post. c # s = pre @ k @ post"
    then obtain pre post where e: "c # s = pre @ k @ post" by blast
    show "includesStr (c # s) k"
    proof (cases pre)
      case Nil
      with e have "startsWith (c # s) k" using startsWith_iff by auto
      then show ?thesis by simp
    next
      case (Cons a pre')
      with e have "s = pre' @ k @ post" by simp
      then have "includesStr s k" using Cons.IH by blast
      then show ?thesis by simp
    qed
  qed
qed

lemma includesStr_empty_keyword: "includesStr s []"
  by (cases s) auto

lemma includesStr_in_empty: "includesStr [] k \<longleftrightarrow> k = []"
  by (cases k) auto

text \<open>\<^const>\<open>splitSpace\<close> never returns no piece, no piece holds a space, and there is one
  piece more than there are spaces.\<close>

lemma splitSpace_not_Nil: "splitSpace s \<noteq> []"
  by (induction s) (auto split: list.splits)

lemma splitSpace_pieces: "w \<in> set (splitSpace s) \<Longrightarrow> CHR '' '' \<notin> set w"
  by (induction s arbitrary: w) (auto split: if_splits list.splits)

lemma splitSpace_length: "length (splitSpace s) = Suc (count_list s CHR '' '')"
  by (induction s) (auto simp: splitSpace_not_Nil split: list.splits)

section \<open>Scoring\<close>

text \<open>The check of \<open>Tags\<close> before its use changes nothing when the tags are an empty string:
  only the empty keyword is found in them, and the title holds that one too.\<close>

lemma empty_tags_tier:
  "(truthy (Some g) \<and> includesStr (toLowerCase g) k) \<or> includesStr (toLowerCase t) k
     \<longleftrightarrow> includesStr (toLowerCase g) k \<or> includesStr (toLowerCase t) k"
proof (cases "g = []")
  case True
  have "includesStr (toLowerCase []) k \<Longrightarrow> includesStr (toLowerCase t) k"
    using includesStr_in_empty [of k] includesStr_empty_keyword [of "toLowerCase t"]
    by (simp add: toLowerCase_def)
  with True show ?thesis by (auto simp: truthy_def)
next
  case False
  then show ?thesis by (simp add: truthy_def)
qed

lemma scoreKeyword_present:
  assumes "Title p = Some t" "Body_HTML p = Some b" "Tags p = Some g" "Vendor p = Some v"
  shows "scoreKeyword p k a = Inr (a + keywordContribution t b g v k)"
  using assms empty_tags_tier [of g k t]
  by (auto simp: scoreKeyword_def keywordContribution_def productText_def templateText_def)

lemma scoreLoop_present:
  assumes "Title p = Some t" "Body_HTML p = Some b" "Tags p = Some g" "Vendor p = Some v"
  shows "scoreLoop p kws a = Inr (a + sum_list (map (keywordContribution t b g v) kws))"
  by (induction kws arbitrary: a) (simp_all add: scoreKeyword_present [OF assms])

text \<open>A row with a title: no keyword throws, each adds between 0 and 3, the empty one 3.\<close>

lemma scoreKeyword_titled:
  assumes "Title p = Some t"
  shows "\<exists>c. scoreKeyword p k a = Inr (a + c) \<and> 0 \<le> c \<and> c \<le> 3 \<and> (k = [] \<longrightarrow> c = 3)"
  using assms by (auto simp: scoreKeyword_def includesStr_empty_keyword)

lemma scoreLoop_titled:
  assumes "Title p = Some t"
  shows "\<exists>r. scoreLoop p kws a = Inr r \<and> a \<le> r \<and> ([] \<in> set kws \<longrightarrow> a + 3 \<le> r)"
proof (induction kws arbitrary: a)
  case Nil
  show ?case by simp
next
  case (Cons k kws)
  obtain c where c: "scoreKeyword p k a = Inr (a + c)" "0 \<le> c" "k = [] \<longrightarrow> c = 3"
    using scoreKeyword_titled [OF assms] by blast
  obtain r where r: "scoreLoop p kws (a + c) = Inr r" "a + c \<le> r"
      "[] \<in> set kws \<longrightarrow> a + c + 3 \<le> r"
    using Cons.IH by blast
  show ?case using c r by auto
qed

lemma scoreAll_titled:
  assumes "\<forall>p\<in>set cat. Title p \<noteq> None"
  shows "\<exists>scored. scoreAll kws cat = Inr scored \<and>
           (\<forall>item\<in>set scored. 0 \<le> score item \<and> ([] \<in> set kws \<longrightarrow> 0 < score item))"
  using assms
proof (induction cat)
  case Nil
  show ?case by simp
next
  case (Cons p cat)
  from Cons.prems obtain t where "Title p = Some t" by auto
  then obtain r where r: "scoreProduct kws p = Inr r" "0 \<le> r" "[] \<in> set kws \<longrightarrow> 3 \<le> r"
    using scoreLoop_titled [of p t kws 0] by (auto simp: scoreProduct_def)
  from Cons obtain scored where s: "scoreAll kws cat = Inr scored"
      "\<forall>item\<in>set scored. 0 \<le> score item \<and> ([] \<in> set kws \<longrightarrow> 0 < score item)"
    by auto
  show ?case using r s by auto
qed

text \<open>A row without a title throws at the first keyword that its text contains.\<close>

lemma untitled_row_throws:
  assumes "Title p = None" "includesStr (productText p) k"
  shows "scoreProduct (k # kws) p = Inl TypeError"
  using assms by (simp add: scoreProduct_def scoreKeyword_def)

lemma scoreAll_no_keywords: "scoreAll [] cat = Inr (map (\<lambda>p. \<lparr>product = p, score = 0\<rparr>) cat)"
  by (induction cat) (simp_all add: scoreProduct_def)

lemma rankProducts_no_keywords: "rankProducts [] cat = Inr []"
  by (simp add: rankProducts_def scoreAll_no_keywords topProducts_def filter_map o_def)

lemma scoreAll_products: "scoreAll kws cat = Inr scored \<Longrightarrow> map product scored = cat"
  by (induction cat arbitrary: scored) (auto split: sum.splits)

lemma scoreAll_scores:
  "scoreAll kws cat = Inr scored \<Longrightarrow>
     map (scoreProduct kws) cat = map (\<lambda>item. Inr (score item)) scored"
  by (induction cat arbitrary: scored) (auto split: sum.splits)

lemma scoreAll_length: "scoreAll kws cat = Inr scored \<Longrightarrow> length scored = length cat"
  using scoreAll_products by (metis length_map)

lemma scoreAll_nth:
  assumes "scoreAll kws cat = Inr scored" "i < length cat"
  shows "product (scored ! i) = cat ! i"
    and "scoreProduct kws (cat ! i) = Inr (score (scored ! i))"
proof -
  have len: "length scored = length cat" using assms(1) by (rule scoreAll_length)
  show "product (scored ! i) = cat ! i"
    using scoreAll_products [OF assms(1)] assms(2) len by (metis nth_map)
  have "map (scoreProduct kws) cat ! i = map (\<lambda>item. Inr (score item)) scored ! i"
    using scoreAll_scores [OF assms(1)] by simp
  then show "scoreProduct kws (cat ! i) = Inr (score (scored ! i))"
    using assms(2) len by simp
qed

section \<open>The sort\<close>

lemma set_insertBy: "set (insertBy cmp x ys) = insert x (set ys)"
  by (induction ys) auto

lemma set_sortBy: "set (sortBy cmp xs) = set xs"
  by (induction xs) (simp_all add: set_insertBy)

lemma length_insertBy: "length (insertBy cmp x ys) = Suc (length ys)"
  by (induction ys) auto

lemma length_sortBy: "length (sortBy cmp xs) = length xs"
  by (induction xs) (simp_all add: length_insertBy)

lemma distinct_insertBy: "distinct (insertBy cmp x ys) \<longleftrightarrow> x \<notin> set ys \<and> distinct ys"
  by (induction ys) (auto simp: set_insertBy)

lemma distinct_sortBy: "distinct (sortBy cmp xs) \<longleftrightarrow> distinct xs"
  by (induction xs) (simp_all add: distinct_insertBy set_sortBy)

lemma insertBy_map:
  "insertBy cmp (f x) (map f ys) = map f (insertBy (\<lambda>a b. cmp (f a) (f b)) x ys)"
  by (induction ys) auto

lemma sortBy_map: "sortBy cmp (map f xs) = map f (sortBy (\<lambda>a b. cmp (f a) (f b)) xs)"
  by (induction xs) (simp_all add: insertBy_map)

text \<open>Sorting positions that come in increasing order, by a key in descending order, leaves
  them in the ranking order: equal keys keep their positions' order.\<close>

lemma rankedBefore_insertBy:
  assumes "sorted_wrt (rankedBefore key) ys" "\<forall>z\<in>set ys. x < z"
  shows "sorted_wrt (rankedBefore key) (insertBy (\<lambda>i j. key j - key i) x ys)"
  using assms
proof (induction ys)
  case Nil
  show ?case by simp
next
  case (Cons y ys)
  show ?case
  proof (cases "key y \<le> key x")
    case True
    have "rankedBefore key x z" if "z \<in> set (y # ys)" for z
    proof -
      have "key z \<le> key y" using that Cons.prems(1) by (auto simp: rankedBefore_def)
      moreover have "x < z" using that Cons.prems(2) by auto
      ultimately show ?thesis using True by (auto simp: rankedBefore_def)
    qed
    with True Cons.prems(1) show ?thesis by simp
  next
    case False
    have "sorted_wrt (rankedBefore key) (insertBy (\<lambda>i j. key j - key i) x ys)"
      using Cons by simp
    moreover have "rankedBefore key y x" using False by (simp add: rankedBefore_def)
    ultimately show ?thesis using False Cons.prems(1) by (auto simp: set_insertBy)
  qed
qed

lemma rankedBefore_sortBy:
  "sorted_wrt (<) xs \<Longrightarrow> sorted_wrt (rankedBefore key) (sortBy (\<lambda>i j. key j - key i) xs)"
  by (induction xs) (simp_all add: rankedBefore_insertBy set_sortBy)

section \<open>The ranking, by catalog position\<close>

lemma topProducts_positions: "topProducts scored = map ((!) scored) (rankedPositions scored)"
proof -
  have "topProducts scored = topProducts (map ((!) scored) [0..<length scored])"
    by (simp add: map_nth)
  also have "\<dots> = map ((!) scored) (rankedPositions scored)"
    unfolding topProducts_def rankedPositions_def
    by (simp only: filter_map sortBy_map take_map o_def byScoreDesc_def)
  finally show ?thesis .
qed

lemma rankedPositions_set:
  assumes "i \<in> set (rankedPositions scored)"
  shows "i < length scored \<and> 0 < score (scored ! i)"
proof -
  have "i \<in> set (sortBy (\<lambda>i j. score (scored ! j) - score (scored ! i))
               (filter (\<lambda>i. 0 < score (scored ! i)) [0..<length scored]))"
    using assms unfolding rankedPositions_def by (rule in_set_takeD)
  then show ?thesis by (simp add: set_sortBy)
qed

lemma rankedPositions_distinct: "distinct (rankedPositions scored)"
  by (simp add: rankedPositions_def distinct_sortBy)

lemma rankedPositions_length: "length (rankedPositions scored) \<le> 6"
  by (simp add: rankedPositions_def)

lemma rankedPositions_sorted:
  "sorted_wrt (rankedBefore (\<lambda>i. score (scored ! i))) (rankedPositions scored)"
  unfolding rankedPositions_def
  by (intro sorted_wrt_take rankedBefore_sortBy sorted_wrt_filter) simp

lemma rankProducts_positions:
  assumes "scoreAll kws cat = Inr scored"
  shows "rankProducts kws cat = Inr (map (\<lambda>i. toSummary (cat ! i)) (rankedPositions scored))"
proof -
  have len: "length scored = length cat" using assms by (rule scoreAll_length)
  have "map (\<lambda>item. toSummary (product item)) (topProducts scored)
          = map (\<lambda>i. toSummary (product (scored ! i))) (rankedPositions scored)"
    by (simp add: topProducts_positions o_def)
  also have "\<dots> = map (\<lambda>i. toSummary (cat ! i)) (rankedPositions scored)"
    using rankedPositions_set [of _ scored] scoreAll_nth(1) [OF assms] len
    by (intro map_cong) auto
  finally show ?thesis using assms by (simp add: rankProducts_def)
qed

text \<open>What a returned result is, for a catalog that is not empty.\<close>

lemma findRelevantProducts_Inr:
  assumes "findRelevantProducts cat d = Inr r" "cat \<noteq> []"
  obtains kws scored where "extractKeywords d = Inr kws" "scoreAll kws cat = Inr scored"
    "r = map (\<lambda>item. toSummary (product item)) (topProducts scored)"
    "r = map (\<lambda>i. toSummary (cat ! i)) (rankedPositions scored)"
proof -
  from assms obtain kws where k: "extractKeywords d = Inr kws" "rankProducts kws cat = Inr r"
    by (auto simp: findRelevantProducts_def split: sum.splits)
  then obtain scored where s: "scoreAll kws cat = Inr scored"
      "r = map (\<lambda>item. toSummary (product item)) (topProducts scored)"
    by (auto simp: rankProducts_def split: sum.splits)
  have "r = map (\<lambda>i. toSummary (cat ! i)) (rankedPositions scored)"
    using rankProducts_positions [OF s(1)] k(2) by simp
  with k(1) s that show ?thesis by blast
qed

section \<open>Keyword extraction\<close>

lemma materialsLoop_eq:
  "materialsLoop ms kws =
     kws @ map toLowerCase
       (filter (\<lambda>v. v \<noteq> [] \<and> toLowerCase v \<notin> {''unknown'', ''unspecified''})
          (concat (map (\<lambda>v. case v of None \<Rightarrow> [] | Some s \<Rightarrow> [s]) ms)))"
  by (induction ms arbitrary: kws) (auto split: option.splits)

lemma materialValues_snd:
  "materialValues obj =
     concat (map (\<lambda>v. case v of None \<Rightarrow> [] | Some s \<Rightarrow> [s]) (map snd obj))"
  by (induction obj) (auto simp: materialValues_def)

lemma filteredWords_eq:
  "filteredWords r =
     filter (\<lambda>word. length word > 3 \<and> word \<notin> stopwords) (splitSpace (toLowerCase r))"
  by (simp add: filteredWords_def stopwords_def commonWords_def)

lemma recommendationsLoop_eq:
  "recommendationsLoop rs kws = kws @ concat (map filteredWords rs)"
  by (induction rs arbitrary: kws) simp_all

lemma cleaningLoop_eq:
  assumes "\<forall>rec\<in>set recs. recommendations rec \<noteq> None"
  shows "cleaningLoop recs kws =
     Inr (kws @ concat (map (\<lambda>rec.
              (if truthy (affectedPart rec) then [toLowerCase (the (affectedPart rec))] else []) @
              concat (map filteredWords (case recommendations rec of None \<Rightarrow> [] | Some rs \<Rightarrow> rs)))
            recs))"
  using assms
  by (induction recs arbitrary: kws)
     (auto simp: pushRecommendation_def recommendationsLoop_eq)

text \<open>When the code returns: every entry of \<open>cleaningRecommendations\<close> has its
  \<open>recommendations\<close>, and every row has a title.\<close>

lemma extractKeywords_returns:
  assumes "\<forall>rec\<in>set (case cleaningRecommendations d of None \<Rightarrow> [] | Some recs \<Rightarrow> recs).
             recommendations rec \<noteq> None"
  shows "\<exists>kws. extractKeywords d = Inr kws"
  using assms
  by (auto simp: extractKeywords_def pushCleaning_def cleaningLoop_eq split: option.splits)

lemma findRelevantProducts_returns:
  assumes "\<forall>rec\<in>set (case cleaningRecommendations d of None \<Rightarrow> [] | Some recs \<Rightarrow> recs).
             recommendations rec \<noteq> None"
    and "\<forall>p\<in>set cat. Title p \<noteq> None"
  shows "\<exists>r. findRelevantProducts cat d = Inr r"
proof -
  obtain kws where "extractKeywords d = Inr kws"
    using extractKeywords_returns [OF assms(1)] by blast
  moreover obtain scored where "scoreAll kws cat = Inr scored"
    using scoreAll_titled [OF assms(2)] by blast
  ultimately show ?thesis by (simp add: findRelevantProducts_def rankProducts_def)
qed

section \<open>The samples, evaluated\<close>

lemma oil_keywords: "extractKeywords oilDetails = Inr [''oil'']"
  by code_simp

lemma oil_ranking:
  "findRelevantProducts [rowWax, rowOil, rowRag, rowOilWax] oilDetails
     = Inr [toSummary rowOil, toSummary rowOilWax, toSummary rowWax]"
  by code_simp

lemma oil_scores:
  "scoreProduct [''oil''] rowWax = Inr 2 \<and> scoreProduct [''oil''] rowOil = Inr 3 \<and>
   scoreProduct [''oil''] rowRag = Inr 0 \<and> scoreProduct [''oil''] rowOilWax = Inr 3"
  by code_simp

text \<open>Two spaces in a row in the brand make an empty keyword.\<close>

lemma spaced_keywords: "extractKeywords spacedDetails = Inr [''air'', [], ''max'']"
  by code_simp

text \<open>The earlier revision returns at most 5 entries.\<close>

lemma earlier_revision_first_five: "length (earlierFindRelevantProducts cat d) \<le> 5"
  by (simp add: earlierFindRelevantProducts_def)

lemma seven_oils:
  "findRelevantProducts (replicate 7 rowOil) oilDetails = Inr (replicate 6 (toSummary rowOil))"
  by code_simp

lemma leather_keywords:
  "describedKeywords truthy splitSpace leatherDetails
     = [''oil'', ''sole'', ''soft'', ''brush'', ''care'']"
  by code_simp

section \<open>The claims\<close>

text \<open>
  Claim C1. For a product record whose title, body, tags and vendor are strings, and for every
  keyword sequence, the relevance score is the sum, over the occurrences of keywords in the
  sequence, of the contribution of each: 0 when the lower-cased, space-joined text of title,
  body, tags and vendor does not contain the keyword; otherwise 3 when the lower-cased title
  contains it, else 2 when the lower-cased tags contain it, else 1. A keyword that occurs
  twice is counted twice, since the sum runs over the sequence.
\<close>

theorem score_is_sum_of_contributions:
  assumes "Title p = Some t" "Body_HTML p = Some b" "Tags p = Some g" "Vendor p = Some v"
  shows "scoreProduct kws p = Inr (\<Sum>k\<leftarrow>kws. keywordContribution t b g v k) \<and>
         scoreProduct (kws @ [k, k]) p
           = Inr ((\<Sum>k\<leftarrow>kws. keywordContribution t b g v k) + 2 * keywordContribution t b g v k)"
  by (simp add: scoreProduct_def scoreLoop_present [OF assms])

theorem score_is_sum_of_contributions_witness:
  "scoreProduct [''oil'', ''wax'', ''oil'', ''zz'', ''v''] rowWax = Inr (2 + 3 + 2 + 0 + 1) \<and>
   scoreProduct ([''wax''] @ [''oil'', ''oil'']) rowWax = Inr (3 + 2 * 2)"
proof -
  have sum: "scoreProduct kws rowWax
          = Inr (\<Sum>k\<leftarrow>kws. keywordContribution ''Wax'' [] ''oil'' ''V'' k) \<and>
        scoreProduct (kws @ [k, k]) rowWax
          = Inr ((\<Sum>k\<leftarrow>kws. keywordContribution ''Wax'' [] ''oil'' ''V'' k)
                 + 2 * keywordContribution ''Wax'' [] ''oil'' ''V'' k)" for kws k
    by (rule score_is_sum_of_contributions) (simp_all add: rowWax_def)
  have "(\<Sum>k\<leftarrow>[''oil'', ''wax'', ''oil'', ''zz'', ''v''].
            keywordContribution ''Wax'' [] ''oil'' ''V'' k) = 8"
    by code_simp
  moreover have "keywordContribution ''Wax'' [] ''oil'' ''V'' ''oil'' = 2"
      "keywordContribution ''Wax'' [] ''oil'' ''V'' ''wax'' = 3"
    by code_simp+
  ultimately show ?thesis
    using sum [of "[''oil'', ''wax'', ''oil'', ''zz'', ''v'']"] sum [of "[''wax'']" "''oil''"]
    by simp
qed

text \<open>
  Claim C2, as the code has it. For a description whose \<open>cleaningRecommendations\<close> entries all
  have their \<open>recommendations\<close>, extraction returns the concatenation, in this order and with
  nothing removed, of: the pieces of the lower-cased \<open>brandAndModel\<close> between single space
  characters, when it is there and not empty; the lower-cased material values that are neither
  empty nor a sentinel; for each entry, the lower-cased \<open>affectedPart\<close> when it is there and not
  empty, then the pieces between single spaces of each lower-cased recommendation that are
  longer than 3 and no stopword; the lower-cased \<open>recommendedTags\<close>.
\<close>

theorem extractKeywords_composition:
  assumes "\<forall>rec\<in>set (case cleaningRecommendations d of None \<Rightarrow> [] | Some recs \<Rightarrow> recs).
             recommendations rec \<noteq> None"
  shows "extractKeywords d = Inr (describedKeywords truthy splitSpace d)"
proof -
  have brand: "pushBrandAndModel d [] =
      (if truthy (brandAndModel d) then splitSpace (toLowerCase (the (brandAndModel d))) else [])"
    by (simp add: pushBrandAndModel_def truthy_def split: option.splits)
  show ?thesis
    using assms
    by (simp add: extractKeywords_def describedKeywords_def brand pushMaterials_def
        pushCleaning_def pushRecommendedTags_def materialsLoop_eq materialValues_snd
        cleaningLoop_eq filteredWords_eq [abs_def] split: option.splits)
qed

theorem extractKeywords_composition_witness:
  "extractKeywords leatherDetails = Inr [''oil'', ''sole'', ''soft'', ''brush'', ''care'']"
proof -
  have "extractKeywords leatherDetails = Inr (describedKeywords truthy splitSpace leatherDetails)"
    by (rule extractKeywords_composition) (simp add: leatherDetails_def)
  then show ?thesis by (simp only: leather_keywords)
qed

text \<open>
  Claim C2, as it is written, fails: a tab is whitespace, and the code does not split there.
  The brand \<open>Air<TAB>Max\<close> gives the single keyword \<open>air<TAB>max\<close>, where splitting on
  whitespace gives \<open>air\<close> and \<open>max\<close>.
\<close>

theorem brand_tab_not_split:
  "extractKeywords tabbedDetails = Inr [''air'' @ [CHR 0x09] @ ''max''] \<and>
   describedKeywords isPresent whitespaceSplit tabbedDetails = [''air'', ''max''] \<and>
   extractKeywords tabbedDetails \<noteq> Inr (describedKeywords isPresent whitespaceSplit tabbedDetails)"
  by code_simp

text \<open>
  Claim C3 says that no input makes the ranking throw and that a missing key of a row reads
  as the empty string. The code throws on a row without a title as soon as a keyword is found
  in the row's text, and on a \<open>cleaningRecommendations\<close> entry without \<open>recommendations\<close>;
  a missing key reads as the text \<open>undefined\<close>, which the keyword \<open>undefined\<close> then matches.
\<close>

theorem missing_fields_throw:
  "findRelevantProducts [rowUntitled] oilDetails = Inl TypeError \<and>
   findRelevantProducts [rowOil] partDetails = Inl TypeError \<and>
   scoreProduct [''undefined''] rowRag = Inr 1"
  by code_simp

text \<open>
  Claim C4. The returned products are in descending order of score, and of two returned
  products with the same score the one earlier in the catalog comes first: the result lists
  catalog positions \<open>ps\<close> such that each position's score is at least that of every later one,
  and equal scores come in increasing position.
\<close>

theorem ranking_stable_descending:
  assumes "extractKeywords d = Inr kws" and "findRelevantProducts cat d = Inr r"
  shows "\<exists>ps. r = map (\<lambda>i. toSummary (cat ! i)) ps \<and> (\<forall>i\<in>set ps. i < length cat) \<and>
           (\<forall>a b. a < b \<and> b < length ps \<longrightarrow>
              (\<exists>sa sb. scoreProduct kws (cat ! (ps ! a)) = Inr sa \<and>
                       scoreProduct kws (cat ! (ps ! b)) = Inr sb \<and>
                       sb \<le> sa \<and> (sa = sb \<longrightarrow> ps ! a < ps ! b)))"
proof (cases "cat = []")
  case True
  with assms(2) have "r = []" by (simp add: findRelevantProducts_def)
  then have "r = map (\<lambda>i. toSummary (cat ! i)) []" by simp
  then show ?thesis by (intro exI [of _ "[]"]) simp
next
  case False
  from assms(2) False obtain kws' scored where
    k: "extractKeywords d = Inr kws'" and s: "scoreAll kws' cat = Inr scored" and
    r: "r = map (\<lambda>i. toSummary (cat ! i)) (rankedPositions scored)"
    by (rule findRelevantProducts_Inr)
  from k assms(1) have [simp]: "kws' = kws" by simp
  let ?ps = "rankedPositions scored"
  have len: "length scored = length cat" using s by (rule scoreAll_length)
  have bound: "\<forall>i\<in>set ?ps. i < length cat"
    using rankedPositions_set [of _ scored] len by auto
  have order: "\<exists>sa sb. scoreProduct kws (cat ! (?ps ! a)) = Inr sa \<and>
                  scoreProduct kws (cat ! (?ps ! b)) = Inr sb \<and>
                  sb \<le> sa \<and> (sa = sb \<longrightarrow> ?ps ! a < ?ps ! b)"
    if "a < b" "b < length ?ps" for a b
  proof -
    have "rankedBefore (\<lambda>i. score (scored ! i)) (?ps ! a) (?ps ! b)"
      using rankedPositions_sorted [of scored] that by (simp add: sorted_wrt_iff_nth_less)
    moreover have "?ps ! a < length cat" "?ps ! b < length cat"
      using bound that by simp_all
    then have "scoreProduct kws (cat ! (?ps ! a)) = Inr (score (scored ! (?ps ! a)))"
        "scoreProduct kws (cat ! (?ps ! b)) = Inr (score (scored ! (?ps ! b)))"
      using scoreAll_nth(2) [OF s] by simp_all
    ultimately show ?thesis by (auto simp: rankedBefore_def)
  qed
  show ?thesis using r bound order by (intro exI [of _ ?ps]) blast
qed

theorem ranking_stable_descending_witness:
  "findRelevantProducts [rowWax, rowOil, rowRag, rowOilWax] oilDetails
     = Inr [toSummary rowOil, toSummary rowOilWax, toSummary rowWax] \<and>
   (\<exists>ps. [toSummary rowOil, toSummary rowOilWax, toSummary rowWax]
            = map (\<lambda>i. toSummary ([rowWax, rowOil, rowRag, rowOilWax] ! i)) ps \<and>
         (\<forall>i\<in>set ps. i < length [rowWax, rowOil, rowRag, rowOilWax]) \<and>
         (\<forall>a b. a < b \<and> b < length ps \<longrightarrow>
            (\<exists>sa sb. scoreProduct [''oil''] ([rowWax, rowOil, rowRag, rowOilWax] ! (ps ! a)) = Inr sa \<and>
                     scoreProduct [''oil''] ([rowWax, rowOil, rowRag, rowOilWax] ! (ps ! b)) = Inr sb \<and>
                     sb \<le> sa \<and> (sa = sb \<longrightarrow> ps ! a < ps ! b))))"
  using ranking_stable_descending [OF oil_keywords oil_ranking] oil_ranking by (intro conjI)

text \<open>
  Claim C5. A returned result is the first 6 entries of the scored list after the entries
  with no match are dropped and the rest is sorted, so it has at most 6 entries.
\<close>

theorem result_first_six:
  assumes "findRelevantProducts cat d = Inr r"
  shows "length r \<le> 6 \<and>
         (cat \<noteq> [] \<longrightarrow>
            (\<exists>kws scored. extractKeywords d = Inr kws \<and> scoreAll kws cat = Inr scored \<and>
               r = map (\<lambda>item. toSummary (product item))
                     (take 6 (sortBy byScoreDesc (filter (\<lambda>item. 0 < score item) scored)))))"
proof (cases "cat = []")
  case True
  with assms show ?thesis by (simp add: findRelevantProducts_def)
next
  case False
  from assms False obtain kws scored where
    k: "extractKeywords d = Inr kws" and s: "scoreAll kws cat = Inr scored" and
    r: "r = map (\<lambda>item. toSummary (product item)) (topProducts scored)"
    by (rule findRelevantProducts_Inr)
  have "length r \<le> 6" using r by (simp add: topProducts_def)
  moreover have "r = map (\<lambda>item. toSummary (product item))
                     (take 6 (sortBy byScoreDesc (filter (\<lambda>item. 0 < score item) scored)))"
    using r by (simp add: topProducts_def)
  ultimately show ?thesis using k s by blast
qed

theorem result_first_six_witness:
  "findRelevantProducts (replicate 7 rowOil) oilDetails = Inr (replicate 6 (toSummary rowOil)) \<and>
   length (replicate 6 (toSummary rowOil)) \<le> 6"
  using result_first_six [OF seven_oils] seven_oils by (intro conjI) simp_all

text \<open>
  Claim C6. A material slot whose value is, in any mix of upper and lower case, \<open>unknown\<close> or
  \<open>unspecified\<close> adds no keyword: the extracted sequence is the one of the description without
  that slot.
\<close>

theorem sentinel_material_ignored:
  assumes "toLowerCase v = ''unknown'' \<or> toLowerCase v = ''unspecified''"
    and "materials d = Some (pre @ [(slot, Some v)] @ post)"
  shows "extractKeywords d = extractKeywords (d\<lparr>materials := Some (pre @ post)\<rparr>)"
proof -
  let ?d' = "d\<lparr>materials := Some (pre @ post)\<rparr>"
  have m: "pushMaterials d kws = pushMaterials ?d' kws" for kws
    using assms by (auto simp: pushMaterials_def materialsLoop_eq)
  have b: "pushBrandAndModel ?d' kws = pushBrandAndModel d kws" for kws
    by (simp add: pushBrandAndModel_def)
  have c: "pushCleaning ?d' kws = pushCleaning d kws" for kws
    by (simp add: pushCleaning_def)
  have t: "pushRecommendedTags ?d' kws = pushRecommendedTags d kws" for kws
    by (simp add: pushRecommendedTags_def)
  show ?thesis
    unfolding extractKeywords_def b c t m [symmetric] ..
qed

theorem sentinel_material_ignored_witness:
  "toLowerCase ''Unknown'' = ''unknown'' \<and>
   extractKeywords leatherDetails
     = extractKeywords (leatherDetails\<lparr>materials :=
         Some ([(''upper'', Some ''Oil'')] @ [(''insole'', None)])\<rparr>)"
proof -
  have low: "toLowerCase ''Unknown'' = ''unknown''" by code_simp
  have "materials leatherDetails
          = Some ([(''upper'', Some ''Oil'')] @ [(''lining'', Some ''Unknown'')] @ [(''insole'', None)])"
    by (simp add: leatherDetails_def)
  with low show ?thesis using sentinel_material_ignored by blast
qed

text \<open>
  Claim C7. With an empty catalog the function returns the empty sequence at once, whatever
  the description is (also one on which extraction would throw, so neither extraction nor the
  scorer has run); and when the extracted keyword sequence is empty it returns the empty
  sequence for every catalog. Neither case throws.
\<close>

theorem degenerate_inputs_empty:
  "findRelevantProducts [] d = Inr [] \<and>
   (extractKeywords d' = Inr [] \<longrightarrow> findRelevantProducts cat d' = Inr [])"
  by (simp add: findRelevantProducts_def rankProducts_no_keywords)

theorem degenerate_inputs_empty_witness:
  "extractKeywords partDetails = Inl TypeError \<and> findRelevantProducts [] partDetails = Inr [] \<and>
   extractKeywords emptyDetails = Inr [] \<and>
   findRelevantProducts [rowUntitled, rowOil] emptyDetails = Inr []"
proof -
  have p: "extractKeywords partDetails = Inl TypeError" by code_simp
  have e: "extractKeywords emptyDetails = Inr []" by code_simp
  show ?thesis
    using p e degenerate_inputs_empty [of partDetails emptyDetails "[rowUntitled, rowOil]"]
    by simp
qed

text \<open>
  Claim C8. Every entry of a returned result is the summary of a catalog product whose score
  against the same keyword sequence, computed again, is greater than 0: the result lists
  catalog positions, and no position of a product with score 0 is among them.
\<close>

theorem results_have_positive_score:
  assumes "extractKeywords d = Inr kws" and "findRelevantProducts cat d = Inr r"
  shows "\<exists>ps. r = map (\<lambda>i. toSummary (cat ! i)) ps \<and>
           (\<forall>i\<in>set ps. i < length cat \<and> (\<exists>n. scoreProduct kws (cat ! i) = Inr n \<and> 0 < n))"
proof (cases "cat = []")
  case True
  with assms(2) have "r = []" by (simp add: findRelevantProducts_def)
  then show ?thesis by (intro exI [of _ "[]"]) simp
next
  case False
  from assms(2) False obtain kws' scored where
    k: "extractKeywords d = Inr kws'" and s: "scoreAll kws' cat = Inr scored" and
    r: "r = map (\<lambda>i. toSummary (cat ! i)) (rankedPositions scored)"
    by (rule findRelevantProducts_Inr)
  from k assms(1) have [simp]: "kws' = kws" by simp
  have len: "length scored = length cat" using s by (rule scoreAll_length)
  have "i < length cat \<and> (\<exists>n. scoreProduct kws (cat ! i) = Inr n \<and> 0 < n)"
    if "i \<in> set (rankedPositions scored)" for i
  proof -
    from that have i: "i < length cat" "0 < score (scored ! i)"
      using rankedPositions_set [of i scored] len by simp_all
    then show ?thesis using scoreAll_nth(2) [OF s, of i] by simp
  qed
  with r show ?thesis by blast
qed

theorem results_have_positive_score_witness:
  "scoreProduct [''oil''] rowRag = Inr 0 \<and>
   (\<exists>ps. [toSummary rowOil, toSummary rowOilWax, toSummary rowWax]
            = map (\<lambda>i. toSummary ([rowWax, rowOil, rowRag, rowOilWax] ! i)) ps \<and>
         (\<forall>i\<in>set ps. i < length [rowWax, rowOil, rowRag, rowOilWax] \<and>
            (\<exists>n. scoreProduct [''oil''] ([rowWax, rowOil, rowRag, rowOilWax] ! i) = Inr n \<and> 0 < n)))"
  using results_have_positive_score [OF oil_keywords oil_ranking] oil_scores by (intro conjI) simp

text \<open>
  Claim C9. The empty keyword is found in the text of every product, and when the keyword
  sequence holds an empty keyword every product of the catalog (each with a title, as a
  product record has) gets a score greater than 0.
\<close>

theorem empty_keyword_matches_all:
  assumes "[] \<in> set kws" and "\<forall>p\<in>set cat. Title p \<noteq> None"
  shows "includesStr (productText q) [] \<and>
         (\<exists>scored. scoreAll kws cat = Inr scored \<and> map product scored = cat \<and>
            (\<forall>item\<in>set scored. scoreProduct kws (product item) = Inr (score item) \<and>
                                0 < score item))"
proof -
  obtain scored where s: "scoreAll kws cat = Inr scored"
      "\<forall>item\<in>set scored. 0 \<le> score item \<and> ([] \<in> set kws \<longrightarrow> 0 < score item)"
    using scoreAll_titled [OF assms(2)] by blast
  have len: "length scored = length cat" using s(1) by (rule scoreAll_length)
  have "scoreProduct kws (product item) = Inr (score item)" if "item \<in> set scored" for item
  proof -
    from that obtain i where i: "i < length scored" "item = scored ! i"
      by (auto simp: in_set_conv_nth)
    then show ?thesis using scoreAll_nth [OF s(1), of i] len by simp
  qed
  then show ?thesis
    using s assms(1) scoreAll_products [OF s(1)] by (auto simp: includesStr_empty_keyword)
qed

theorem empty_keyword_matches_all_witness:
  "scoreAll [''zz'', []] [rowRag, rowOil]
     = Inr [\<lparr>product = rowRag, score = 3\<rparr>, \<lparr>product = rowOil, score = 3\<rparr>] \<and>
   includesStr (productText rowUntitled) []"
proof -
  have t: "\<forall>p\<in>set [rowRag, rowOil]. Title p \<noteq> None" by (simp add: rowRag_def rowOil_def)
  have k: "[] \<in> set [''zz'', []]" by simp
  have "scoreAll [''zz'', []] [rowRag, rowOil]
          = Inr [\<lparr>product = rowRag, score = 3\<rparr>, \<lparr>product = rowOil, score = 3\<rparr>]"
    by code_simp
  then show ?thesis using empty_keyword_matches_all [OF k t, of rowUntitled] by simp
qed

text \<open>
  Claim C10. Each catalog position gives at most one entry of a returned result: the result
  lists catalog positions, and no position comes twice.
\<close>

theorem one_entry_per_position:
  assumes "findRelevantProducts cat d = Inr r"
  shows "\<exists>ps. distinct ps \<and> (\<forall>i\<in>set ps. i < length cat) \<and>
           r = map (\<lambda>i. toSummary (cat ! i)) ps"
proof (cases "cat = []")
  case True
  with assms have "r = []" by (simp add: findRelevantProducts_def)
  then show ?thesis by (intro exI [of _ "[]"]) simp
next
  case False
  from assms False obtain kws scored where
    s: "scoreAll kws cat = Inr scored" and
    r: "r = map (\<lambda>i. toSummary (cat ! i)) (rankedPositions scored)"
    by (rule findRelevantProducts_Inr)
  have "\<forall>i\<in>set (rankedPositions scored). i < length cat"
    using rankedPositions_set [of _ scored] scoreAll_length [OF s] by auto
  with r rankedPositions_distinct [of scored] show ?thesis by blast
qed

theorem one_entry_per_position_witness:
  "\<exists>ps. distinct ps \<and> (\<forall>i\<in>set ps. i < length [rowWax, rowOil, rowRag, rowOilWax]) \<and>
     [toSummary rowOil, toSummary rowOilWax, toSummary rowWax]
       = map (\<lambda>i. toSummary ([rowWax, rowOil, rowRag, rowOilWax] ! i)) ps"
  using one_entry_per_position [OF oil_ranking] .

end
